theory Spec2Isabelle
  imports Main
begin

section \<open>Python text primitives used by snap-sync-cleanup\<close>

text \<open>
  Text is a \<^typ>\<open>string\<close>; a character stands for a code point below 256. The
  character classes below are those of the interpreter on that range: \<open>str.isspace\<close>
  (used by \<open>str.strip\<close>), the line boundaries of \<open>str.splitlines\<close>, and the blanks
  that \<open>int\<close> skips around a literal (which are fewer than \<open>str.isspace\<close>: the
  separators 28 to 31 are not skipped). The only decimal digits below 256 are
  \<open>0\<close> to \<open>9\<close>. The length limit that newer interpreters put on integer literals
  (4300 digits unless reconfigured) is not modelled.
\<close>

definition is_space :: "char \<Rightarrow> bool" where
  "is_space c = (of_char c \<in> {9, 10, 11, 12, 13, 28, 29, 30, 31, 32, 133, 160 :: nat})"

definition is_linebreak :: "char \<Rightarrow> bool" where
  "is_linebreak c = (of_char c \<in> {10, 11, 12, 13, 28, 29, 30, 133 :: nat})"

definition is_int_space :: "char \<Rightarrow> bool" where
  "is_int_space c = (of_char c \<in> {9, 10, 11, 12, 13, 32, 133, 160 :: nat})"

definition is_digit :: "char \<Rightarrow> bool" where
  "is_digit c = (48 \<le> (of_char c :: nat) \<and> (of_char c :: nat) \<le> 57)"

definition digit_val :: "char \<Rightarrow> int" where
  "digit_val c = int (of_char c) - 48"

definition strip :: "string \<Rightarrow> string" where
  "strip s = rev (dropWhile is_space (rev (dropWhile is_space s)))"

text \<open>\<open>str.splitlines()\<close>: \<open>cur\<close> holds the current line reversed. A carriage return
  followed by a line feed is one boundary; a boundary at the very end opens no further
  line.\<close>

fun splitlines_from :: "string \<Rightarrow> string \<Rightarrow> string list" where
  "splitlines_from cur [] = (if cur = [] then [] else [rev cur])"
| "splitlines_from cur [c] =
     (if is_linebreak c then [rev cur] else [rev (c # cur)])"
| "splitlines_from cur (c # d # cs) =
     (if of_char c = (13::nat) \<and> of_char d = (10::nat) then rev cur # splitlines_from [] cs
      else if is_linebreak c then rev cur # splitlines_from [] (d # cs)
      else splitlines_from (c # cur) (d # cs))"

definition splitlines :: "string \<Rightarrow> string list" where
  "splitlines s = splitlines_from [] s"

text \<open>\<open>needle in line\<close> on strings.\<close>

fun startswith :: "string \<Rightarrow> string \<Rightarrow> bool" where
  "startswith s [] = True"
| "startswith [] (p # ps) = False"
| "startswith (c # cs) (p # ps) = (c = p \<and> startswith cs ps)"

fun str_in :: "string \<Rightarrow> string \<Rightarrow> bool" where
  "str_in needle [] = (needle = [])"
| "str_in needle (c # cs) = (startswith (c # cs) needle \<or> str_in needle cs)"

text \<open>\<open>line.split(" ")[0]\<close>: the text before the first space (the whole line when it
  has none); \<open>split\<close> with a separator always returns at least one field.\<close>

definition first_field :: "string \<Rightarrow> string" where
  "first_field line = takeWhile (\<lambda>c. c \<noteq> CHR '' '') line"

text \<open>\<open>int(s)\<close> on a string, base 10: blanks around the literal are dropped, then an
  optional sign, then digits, where one underscore may stand between two digits.
  \<open>None\<close> is ValueError.\<close>

fun int_digits :: "int \<Rightarrow> string \<Rightarrow> int option" where
  "int_digits acc [] = Some acc"
| "int_digits acc [c] = (if is_digit c then Some (acc * 10 + digit_val c) else None)"
| "int_digits acc (c # d # cs) =
     (if is_digit c then int_digits (acc * 10 + digit_val c) (d # cs)
      else if c = CHR ''_'' \<and> is_digit d then int_digits (acc * 10 + digit_val d) cs
      else None)"

definition int_unsigned :: "string \<Rightarrow> int option" where
  "int_unsigned s =
     (case s of [] \<Rightarrow> None
      | c # cs \<Rightarrow> if is_digit c then int_digits (digit_val c) cs else None)"

definition py_int :: "string \<Rightarrow> int option" where
  "py_int s =
     (let t = rev (dropWhile is_int_space (rev (dropWhile is_int_space s)))
      in case t of
           [] \<Rightarrow> None
         | c # cs \<Rightarrow>
             if c = CHR ''-'' then map_option uminus (int_unsigned cs)
             else if c = CHR ''+'' then int_unsigned cs
             else int_unsigned t)"


section \<open>Paths\<close>

text \<open>A \<open>PosixPath\<close> is its anchor (none, \<open>/\<close>, or the \<open>//\<close> that exactly two
  leading slashes give) and its components; empty components and \<open>.\<close> are dropped
  when a string is parsed, \<open>..\<close> is kept. Equality of paths is equality of these.\<close>

datatype anchor = Relative | Root | Root2

datatype posix_path = PosixPath (anchor: anchor) (parts: "string list")

fun split_sep :: "char \<Rightarrow> string \<Rightarrow> string \<Rightarrow> string list" where
  "split_sep sep cur [] = [rev cur]"
| "split_sep sep cur (c # cs) =
     (if c = sep then rev cur # split_sep sep [] cs else split_sep sep (c # cur) cs)"

definition anchor_of :: "string \<Rightarrow> anchor" where
  "anchor_of s =
     (if startswith s ''//'' \<and> \<not> startswith s ''///'' then Root2
      else if startswith s ''/'' then Root
      else Relative)"

definition path_of_str :: "string \<Rightarrow> posix_path" where
  "path_of_str s =
     PosixPath (anchor_of s) (filter (\<lambda>p. p \<noteq> [] \<and> p \<noteq> ''.'') (split_sep CHR ''/'' [] s))"

definition is_absolute :: "posix_path \<Rightarrow> bool" where
  "is_absolute p = (anchor p \<noteq> Relative)"

text \<open>Joining: an anchored right operand replaces the left one.\<close>

definition joinpath :: "posix_path \<Rightarrow> posix_path \<Rightarrow> posix_path" where
  "joinpath p q =
     (if is_absolute q then q else PosixPath (anchor p) (parts p @ parts q))"

text \<open>\<open>absolute()\<close> puts the working directory, given by its components below
  \<open>/\<close>, in front of a relative path and resolves nothing.\<close>

definition absolute :: "string list \<Rightarrow> posix_path \<Rightarrow> posix_path" where
  "absolute cwd p = (if is_absolute p then p else PosixPath Root (cwd @ parts p))"

definition name_of :: "posix_path \<Rightarrow> string" where
  "name_of p = (if parts p = [] then [] else last (parts p))"

definition child_path :: "posix_path \<Rightarrow> string \<Rightarrow> posix_path" where
  "child_path p n = PosixPath (anchor p) (parts p @ [n])"

section \<open>The environment, errors and the trace\<close>

text \<open>
  What the script reads from outside is a record: the working directory, the two
  external programs and the file system. A program that cannot be started makes
  \<open>subprocess.run\<close> raise (\<open>None\<close> here); otherwise it ends with an exit status,
  and \<open>snapper\<close>, which is run with \<open>capture_output=True\<close>, also with its two
  captured texts (taken as already decoded). \<open>rmtree\<close> tells whether
  \<open>shutil.rmtree\<close> returns (\<open>True\<close>) or raises.
\<close>

record env =
  cwd :: "string list"
  snapper :: "string \<Rightarrow> (int \<times> string \<times> string) option"
  btrfs :: "posix_path \<Rightarrow> int option"
  path_exists :: "posix_path \<Rightarrow> bool"
  path_is_dir :: "posix_path \<Rightarrow> bool"
  iterdir :: "posix_path \<Rightarrow> string list"
  rmtree :: "posix_path \<Rightarrow> bool"

datatype py_error =
    AssertionError string
  | AttributeError
  | OSError
  | SystemExit int

datatype py_val = PyNone | PyBytes string | PyStr string

datatype level = DEBUG | INFO | WARNING | ERROR

datatype msg =
    Insufficient_permissions string
  | Failed_to_get_info string
  | External_output string
  | Could_not_find_snapshot_path posix_path
  | Ignoring_non_directory posix_path
  | Ignoring_non_numerical posix_path
  | Failed_to_delete_subvolume posix_path
  | Failed_to_delete_outer_directory posix_path
  | Exception_detail
  | Max_keep_zero
  | Latest_backup_number "int option"
  | List_of_snapshots "int list"
  | Skipping_latest int
  | Skipping_root posix_path
  | Successfully_deleted int
  | Successful_deletes int
  | Delete_attempts int
  | Total_discovered int

text \<open>The trace of a run: log calls with their level, and the two destructive
  operations.\<close>

datatype event =
    Log level msg
  | Run_btrfs_subvolume_delete posix_path
  | Run_rmtree posix_path

section \<open>The functions of the script\<close>

fun as_text :: "py_val \<Rightarrow> string option" where
  "as_text PyNone = None"
| "as_text (PyBytes b) = Some b"
| "as_text (PyStr s) = Some s"

text \<open>\<open>log_external_output\<close>: bytes are decoded, then both values are stripped before
  anything is logged; \<open>None\<close> has no \<open>strip\<close>, which is an AttributeError.\<close>

definition log_external_output :: "py_val \<Rightarrow> py_val \<Rightarrow> level \<Rightarrow> py_error + event list" where
  "log_external_output out err log_level =
     (case as_text out of
        None \<Rightarrow> Inl AttributeError
      | Some so \<Rightarrow>
          (case as_text err of
             None \<Rightarrow> Inl AttributeError
           | Some se \<Rightarrow>
               Inr ((if strip se \<noteq> [] then [Log log_level (External_output (strip se))] else []) @
                    (if strip so \<noteq> [] then [Log log_level (External_output (strip so))] else []))))"

text \<open>The loop of \<open>get_latest_snapshot_num\<close> over the reversed lines: a line without
  the marker is passed over; on a line with it the first field is converted, and
  when the conversion raises, the bare \<open>except: pass\<close> lets the loop go on.\<close>

fun scan_latest :: "string list \<Rightarrow> int option" where
  "scan_latest [] = None"
| "scan_latest (line # rest) =
     (if \<not> str_in ''latest incremental backup'' line then scan_latest rest
      else (case py_int (first_field line) of
              Some num \<Rightarrow> Some num
            | None \<Rightarrow> scan_latest rest))"

definition latest_of_listing :: "string \<Rightarrow> int option" where
  "latest_of_listing out = scan_latest (rev (splitlines (strip out)))"

definition get_latest_snapshot_num :: "env \<Rightarrow> string \<Rightarrow> event list \<times> (py_error + int option)" where
  "get_latest_snapshot_num e config =
     (case snapper e config of
        None \<Rightarrow> ([], Inl OSError)
      | Some (returncode, out, err) \<Rightarrow>
          if returncode \<noteq> 0 then
            (let first = Log ERROR
                   (if str_in ''No permissions'' (strip err) then Insufficient_permissions config
                    else Failed_to_get_info config)
             in case log_external_output (PyStr (strip out)) (PyStr (strip err)) DEBUG of
                  Inl x \<Rightarrow> ([first], Inl x)
                | Inr evs \<Rightarrow> (first # evs, Inl (SystemExit 1)))
          else ([], Inr (latest_of_listing out)))"

definition get_snapshot_root_path :: "env \<Rightarrow> string \<Rightarrow> string \<Rightarrow> event list \<times> (py_error + posix_path)" where
  "get_snapshot_root_path e remote config =
     (let path = absolute (cwd e) (joinpath (path_of_str remote) (path_of_str config))
      in if \<not> path_exists e path \<or> \<not> path_is_dir e path
         then ([Log ERROR (Could_not_find_snapshot_path path)], Inl (SystemExit 1))
         else ([], Inr path))"

text \<open>\<open>get_snapshots\<close>: the loop over the children of the directory.\<close>

fun scan_children :: "env \<Rightarrow> posix_path list \<Rightarrow> event list \<times> (int \<times> posix_path) list" where
  "scan_children e [] = ([], [])"
| "scan_children e (child # rest) =
     (let (evs, snapshots) = scan_children e rest
      in if \<not> path_is_dir e child then (Log DEBUG (Ignoring_non_directory child) # evs, snapshots)
         else (case py_int (name_of child) of
                 None \<Rightarrow> (Log DEBUG (Ignoring_non_numerical child) # evs, snapshots)
               | Some num \<Rightarrow> (evs, (num, child) # snapshots)))"

definition get_snapshots :: "env \<Rightarrow> posix_path \<Rightarrow> event list \<times> (int \<times> posix_path) list" where
  "get_snapshots e path = scan_children e (map (child_path path) (iterdir e path))"

text \<open>\<open>delete_snapshot\<close>. The volume removal is run without \<open>capture_output\<close>, so
  the \<open>stdout\<close> and \<open>stderr\<close> of its result are \<open>None\<close>.\<close>

definition delete_snapshot :: "env \<Rightarrow> posix_path \<Rightarrow> event list \<times> (py_error + bool)" where
  "delete_snapshot e path =
     (if \<not> is_absolute path then ([], Inl (AssertionError ''path.is_absolute()''))
      else
        (let subvolume_path = absolute (cwd e) (joinpath path (path_of_str ''subvolume''))
         in case btrfs e subvolume_path of
              None \<Rightarrow> ([Run_btrfs_subvolume_delete subvolume_path], Inl OSError)
            | Some returncode \<Rightarrow>
                if returncode \<noteq> 0 then
                  (let evs = [Run_btrfs_subvolume_delete subvolume_path,
                              Log ERROR (Failed_to_delete_subvolume subvolume_path)]
                   in case log_external_output PyNone PyNone DEBUG of
                        Inl x \<Rightarrow> (evs, Inl x)
                      | Inr logged \<Rightarrow> (evs @ logged, Inr False))
                else if rmtree e path
                  then ([Run_btrfs_subvolume_delete subvolume_path, Run_rmtree path], Inr True)
                  else ([Run_btrfs_subvolume_delete subvolume_path, Run_rmtree path,
                         Log WARNING (Failed_to_delete_outer_directory path),
                         Log DEBUG Exception_detail], Inr False)))"


section \<open>The main flow\<close>

text \<open>The variables of the retention loop, with the trace and two lists kept for the
  statements only: the snapshots \<open>delete_snapshot\<close> was called on, and those for
  which it returned \<open>True\<close>.\<close>

record loop_state =
  delete_count :: int
  delete_attempts :: int
  attempted :: "(int \<times> posix_path) list"
  deleted :: "(int \<times> posix_path) list"
  events :: "event list"

definition initial_state :: "event list \<Rightarrow> loop_state" where
  "initial_state evs =
     \<lparr>delete_count = 0, delete_attempts = 0, attempted = [], deleted = [], events = evs\<rparr>"

definition emit :: "event list \<Rightarrow> loop_state \<Rightarrow> loop_state" where
  "emit evs st = st\<lparr>events := events st @ evs\<rparr>"

text \<open>The \<open>for\<close> loop over the sorted snapshots; \<open>n_total\<close> is \<open>len(snapshots)\<close>. The
  result is the exception that left the loop, if any, and the state reached.\<close>

fun retention_loop ::
  "env \<Rightarrow> int \<Rightarrow> int option \<Rightarrow> int \<Rightarrow> (int \<times> posix_path) list \<Rightarrow> loop_state
     \<Rightarrow> py_error option \<times> loop_state" where
  "retention_loop e n_total latest_backup_num max_keep [] st = (None, st)"
| "retention_loop e n_total latest_backup_num max_keep ((num, path) # rest) st =
     (if n_total - delete_attempts st \<le> max_keep then (None, st)
      else if Some num = latest_backup_num \<and> max_keep > 0
        then retention_loop e n_total latest_backup_num max_keep rest
               (emit [Log DEBUG (Skipping_latest num)] st)
      else if path = PosixPath Root []
        then retention_loop e n_total latest_backup_num max_keep rest
               (emit [Log WARNING (Skipping_root path)] st)
      else
        (let st1 = st\<lparr>delete_attempts := 0, attempted := attempted st @ [(num, path)]\<rparr>
         in case delete_snapshot e path of
              (evs, Inl x) \<Rightarrow> (Some x, emit evs st1)
            | (evs, Inr False) \<Rightarrow>
                retention_loop e n_total latest_backup_num max_keep rest (emit evs st1)
            | (evs, Inr True) \<Rightarrow>
                retention_loop e n_total latest_backup_num max_keep rest
                  (emit (evs @ [Log INFO (Successfully_deleted num)])
                     (st1\<lparr>delete_count := delete_count st1 + 1,
                          deleted := deleted st1 @ [(num, path)]\<rparr>))))"

text \<open>The retention engine: the sort, the loop, the three summary lines and the
  exit check.\<close>

definition retention_engine ::
  "env \<Rightarrow> (int \<times> posix_path) list \<Rightarrow> int option \<Rightarrow> int \<Rightarrow> event list
     \<Rightarrow> py_error option \<times> loop_state" where
  "retention_engine e found latest_backup_num max_keep evs0 =
     (let snapshots = sort_key fst found;
          st0 = initial_state (evs0 @ [Log DEBUG (List_of_snapshots (map fst snapshots))])
      in case retention_loop e (int (length snapshots)) latest_backup_num max_keep snapshots st0 of
           (Some x, st) \<Rightarrow> (Some x, st)
         | (None, st) \<Rightarrow>
             (let st' = emit [Log INFO (Successful_deletes (delete_count st)),
                              Log INFO (Delete_attempts (delete_attempts st)),
                              Log INFO (Total_discovered (int (length snapshots)))] st
              in if delete_attempts st' > delete_count st' then (Some (SystemExit 1), st')
                 else (None, st')))"

section \<open>The loop as the specification words it\<close>


record args =
  config :: string
  remote :: string
  max_keep :: int

text \<open>The script from the assertion on \<open>max_keep\<close> on (argument parsing and the set-up
  of logging come before and are left out).\<close>

definition main :: "env \<Rightarrow> args \<Rightarrow> py_error option \<times> loop_state" where
  "main e a =
     (if \<not> max_keep a \<ge> 0 then (Some (AssertionError ''max_keep >= 0''), initial_state [])
      else
        (let evs1 = (if max_keep a = 0 then [Log WARNING Max_keep_zero] else [])
         in case get_latest_snapshot_num e (config a) of
              (evs2, Inl x) \<Rightarrow> (Some x, initial_state (evs1 @ evs2))
            | (evs2, Inr latest_backup_num) \<Rightarrow>
                (let evs3 = evs1 @ evs2 @ [Log INFO (Latest_backup_number latest_backup_num)]
                 in case get_snapshot_root_path e (remote a) (config a) of
                      (evs4, Inl x) \<Rightarrow> (Some x, initial_state (evs3 @ evs4))
                    | (evs4, Inr snapshot_path) \<Rightarrow>
                        (let (evs5, snapshots) = get_snapshots e snapshot_path
                         in retention_engine e snapshots latest_backup_num (max_keep a)
                              (evs3 @ evs4 @ evs5)))))"

text \<open>The exit status of the process: 0 at the normal end, the argument of \<open>exit\<close>,
  and 1 for any other exception that nothing catches.\<close>

fun exit_status :: "py_error option \<Rightarrow> int" where
  "exit_status None = 0"
| "exit_status (Some (SystemExit n)) = n"
| "exit_status (Some _) = 1"


text \<open>The snapshots a run leaves: those it did not delete.\<close>

definition remaining :: "(int \<times> posix_path) list \<Rightarrow> loop_state \<Rightarrow> (int \<times> posix_path) list" where
  "remaining found st = filter (\<lambda>s. s \<notin> set (deleted st)) found"

section \<open>Concrete environments and inputs\<close>

text \<open>An environment in which every external operation succeeds, and variants in
  which the volume removal ends with status 1 or the removal of the directory
  raises.\<close>

definition env_ok :: env where
  "env_ok =
     \<lparr>cwd = [''root''],
      snapper = (\<lambda>_. Some (0, ''5 | latest incremental backup'', [])),
      btrfs = (\<lambda>_. Some 0),
      path_exists = (\<lambda>_. True),
      path_is_dir = (\<lambda>_. True),
      iterdir = (\<lambda>_. []),
      rmtree = (\<lambda>_. True)\<rparr>"

definition env_volume_fails :: env where
  "env_volume_fails = env_ok\<lparr>btrfs := (\<lambda>_. Some 1)\<rparr>"

definition env_rmtree_fails :: env where
  "env_rmtree_fails = env_ok\<lparr>rmtree := (\<lambda>_. False)\<rparr>"

definition backup_dir :: posix_path where
  "backup_dir = PosixPath Root [''mnt'', ''backup'', ''root'']"

definition snap :: "int \<Rightarrow> string \<Rightarrow> int \<times> posix_path" where
  "snap n name = (n, child_path backup_dir name)"

definition five_snapshots :: "(int \<times> posix_path) list" where
  "five_snapshots = [snap 1 ''1'', snap 2 ''2'', snap 3 ''3'', snap 4 ''4'', snap 5 ''5'']"

definition three_snapshots :: "(int \<times> posix_path) list" where
  "three_snapshots = [snap 1 ''1'', snap 2 ''2'', snap 3 ''3'']"


text \<open>The command line \<open>--config root --remote /mnt/backup --max-keep mk\<close>.\<close>

definition cleanup_args :: "int \<Rightarrow> args" where
  "cleanup_args mk = \<lparr>config = ''root'', remote = ''/mnt/backup'', max_keep = mk\<rparr>"

text \<open>The backup directory holds the snapshots 1 and 2, and every removal of a
  directory raises.\<close>

definition env_two_rmtree_fails :: env where
  "env_two_rmtree_fails = env_ok\<lparr>iterdir := (\<lambda>_. [''1'', ''2'']), rmtree := (\<lambda>_. False)\<rparr>"

text \<open>The backup directory holds one entry, \<open>7\<close>, which is a symbolic link to \<open>/\<close>.
  \<open>is_dir\<close> follows the link and is true; \<open>shutil.rmtree\<close> refuses a symbolic link
  and raises on it. What the link resolves to is a fact of the file system that the
  script never asks for; \<open>resolve_link_7\<close> states it.\<close>

definition env_link_to_root :: env where
  "env_link_to_root =
     env_ok\<lparr>iterdir := (\<lambda>_. [''7'']),
            rmtree := (\<lambda>p. p \<noteq> PosixPath Root [''mnt'', ''backup'', ''root'', ''7''])\<rparr>"

definition resolve_link_7 :: "posix_path \<Rightarrow> posix_path" where
  "resolve_link_7 p = (if p = child_path backup_dir ''7'' then PosixPath Root [] else p)"

text \<open>A listing whose last line carries the marker behind a first field that is not
  a number, and whose first line carries it behind 7.\<close>

definition listing_bad_last :: string where
  "listing_bad_last =
     ''7 | latest incremental backup'' @ [CHR 0x0A] @ ''x | latest incremental backup''"

text \<open>A backup directory with the entries \<open>-5\<close>, \<open>12\<close>, \<open>notes\<close> and \<open>13\<close>, of which
  \<open>13\<close> is a plain file.\<close>

definition env_mixed_entries :: env where
  "env_mixed_entries =
     env_ok\<lparr>iterdir := (\<lambda>_. [''-5'', ''12'', ''notes'', ''13'']),
            path_is_dir := (\<lambda>p. p \<noteq> child_path backup_dir ''13'')\<rparr>"

section \<open>Unfolding rules\<close>

lemmas env_defs = env_ok_def env_volume_fails_def env_rmtree_fails_def env_two_rmtree_fails_def
  env_link_to_root_def env_mixed_entries_def cleanup_args_def

lemmas path_defs = is_absolute_def joinpath_def absolute_def path_of_str_def anchor_of_def
  child_path_def backup_dir_def snap_def name_of_def

lemmas text_defs = latest_of_listing_def splitlines_def strip_def is_space_def is_linebreak_def
  first_field_def py_int_def int_unsigned_def is_int_space_def is_digit_def digit_val_def

lemmas run_defs = retention_engine_def initial_state_def emit_def delete_snapshot_def
  log_external_output_def Let_def five_snapshots_def three_snapshots_def

section \<open>The branches of the retention loop\<close>

text \<open>One equation for each way through the body of the loop, and the induction
  rule that goes with them.\<close>

lemma loop_break:
  "n - delete_attempts st \<le> mk \<Longrightarrow> retention_loop e n l mk xs st = (None, st)"
  by (cases xs) auto

lemma loop_skip_latest:
  "\<not> n - delete_attempts st \<le> mk \<Longrightarrow> Some num = l \<Longrightarrow> 0 < mk
     \<Longrightarrow> retention_loop e n l mk ((num, path) # rest) st
         = retention_loop e n l mk rest (emit [Log DEBUG (Skipping_latest num)] st)"
  by simp

lemma loop_skip_root:
  "\<not> n - delete_attempts st \<le> mk \<Longrightarrow> \<not> (Some num = l \<and> 0 < mk) \<Longrightarrow> path = PosixPath Root []
     \<Longrightarrow> retention_loop e n l mk ((num, path) # rest) st
         = retention_loop e n l mk rest (emit [Log WARNING (Skipping_root path)] st)"
  by auto

lemma loop_raise:
  "\<not> n - delete_attempts st \<le> mk \<Longrightarrow> \<not> (Some num = l \<and> 0 < mk) \<Longrightarrow> path \<noteq> PosixPath Root []
     \<Longrightarrow> delete_snapshot e path = (evs, Inl x)
     \<Longrightarrow> retention_loop e n l mk ((num, path) # rest) st
         = (Some x, emit evs (st\<lparr>delete_attempts := 0, attempted := attempted st @ [(num, path)]\<rparr>))"
  by (auto simp: Let_def)

lemma loop_fail:
  "\<not> n - delete_attempts st \<le> mk \<Longrightarrow> \<not> (Some num = l \<and> 0 < mk) \<Longrightarrow> path \<noteq> PosixPath Root []
     \<Longrightarrow> delete_snapshot e path = (evs, Inr False)
     \<Longrightarrow> retention_loop e n l mk ((num, path) # rest) st
         = retention_loop e n l mk rest
             (emit evs (st\<lparr>delete_attempts := 0, attempted := attempted st @ [(num, path)]\<rparr>))"
  by (auto simp: Let_def)

lemma loop_success:
  "\<not> n - delete_attempts st \<le> mk \<Longrightarrow> \<not> (Some num = l \<and> 0 < mk) \<Longrightarrow> path \<noteq> PosixPath Root []
     \<Longrightarrow> delete_snapshot e path = (evs, Inr True)
     \<Longrightarrow> retention_loop e n l mk ((num, path) # rest) st
         = retention_loop e n l mk rest
             (emit (evs @ [Log INFO (Successfully_deleted num)])
                (st\<lparr>delete_attempts := 0, attempted := attempted st @ [(num, path)],
                    delete_count := delete_count st + 1,
                    deleted := deleted st @ [(num, path)]\<rparr>))"
  by (auto simp: Let_def)

lemma loop_cases [case_names Nil Break Skip_latest Skip_root Raise Fail Success]:
  assumes "\<And>st. P [] st"
    and "\<And>num path rest st. n - delete_attempts st \<le> mk \<Longrightarrow> P ((num, path) # rest) st"
    and "\<And>num path rest st.
          \<not> n - delete_attempts st \<le> mk \<Longrightarrow> Some num = l \<Longrightarrow> 0 < mk
          \<Longrightarrow> P rest (emit [Log DEBUG (Skipping_latest num)] st)
          \<Longrightarrow> P ((num, path) # rest) st"
    and "\<And>num path rest st.
          \<not> n - delete_attempts st \<le> mk \<Longrightarrow> \<not> (Some num = l \<and> 0 < mk)
          \<Longrightarrow> path = PosixPath Root []
          \<Longrightarrow> P rest (emit [Log WARNING (Skipping_root path)] st)
          \<Longrightarrow> P ((num, path) # rest) st"
    and "\<And>num path rest st evs x.
          \<not> n - delete_attempts st \<le> mk \<Longrightarrow> \<not> (Some num = l \<and> 0 < mk)
          \<Longrightarrow> path \<noteq> PosixPath Root [] \<Longrightarrow> delete_snapshot e path = (evs, Inl x)
          \<Longrightarrow> P ((num, path) # rest) st"
    and "\<And>num path rest st evs.
          \<not> n - delete_attempts st \<le> mk \<Longrightarrow> \<not> (Some num = l \<and> 0 < mk)
          \<Longrightarrow> path \<noteq> PosixPath Root [] \<Longrightarrow> delete_snapshot e path = (evs, Inr False)
          \<Longrightarrow> P rest (emit evs (st\<lparr>delete_attempts := 0,
                                   attempted := attempted st @ [(num, path)]\<rparr>))
          \<Longrightarrow> P ((num, path) # rest) st"
    and "\<And>num path rest st evs.
          \<not> n - delete_attempts st \<le> mk \<Longrightarrow> \<not> (Some num = l \<and> 0 < mk)
          \<Longrightarrow> path \<noteq> PosixPath Root [] \<Longrightarrow> delete_snapshot e path = (evs, Inr True)
          \<Longrightarrow> P rest (emit (evs @ [Log INFO (Successfully_deleted num)])
                      (st\<lparr>delete_attempts := 0, attempted := attempted st @ [(num, path)],
                          delete_count := delete_count st + 1,
                          deleted := deleted st @ [(num, path)]\<rparr>))
          \<Longrightarrow> P ((num, path) # rest) st"
  shows "P xs st"
proof (induction xs arbitrary: st)
  case Nil
  show ?case by (rule assms(1))
next
  case (Cons s rest)
  obtain num path where s: "s = (num, path)" by (cases s)
  obtain evs r where d: "delete_snapshot e path = (evs, r)" by (cases "delete_snapshot e path")
  show ?case
  proof (cases "n - delete_attempts st \<le> mk")
    case True
    then show ?thesis unfolding s by (rule assms(2))
  next
    case nb: False
    show ?thesis
    proof (cases "Some num = l \<and> 0 < mk")
      case True
      then show ?thesis unfolding s using nb Cons.IH by (intro assms(3)) auto
    next
      case nl: False
      show ?thesis
      proof (cases "path = PosixPath Root []")
        case True
        then show ?thesis unfolding s using nb nl Cons.IH by (intro assms(4)) auto
      next
        case nr: False
        show ?thesis
        proof (cases r)
          case (Inl x)
          then show ?thesis unfolding s using nb nl nr d by (intro assms(5)[of _ _ _ evs x]) auto
        next
          case (Inr b)
          show ?thesis
          proof (cases b)
            case True
            then show ?thesis unfolding s using nb nl nr d Inr Cons.IH
              by (intro assms(7)[of _ _ _ evs]) auto
          next
            case False
            then show ?thesis unfolding s using nb nl nr d Inr Cons.IH
              by (intro assms(6)[of _ _ _ evs]) auto
          qed
        qed
      qed
    qed
  qed
qed

section \<open>Invariants of the retention loop\<close>

lemma loop_attempts_zero:
  "delete_attempts st = 0 \<Longrightarrow> delete_attempts (snd (retention_loop e n l mk xs st)) = 0"
  by (induction e n l mk xs st rule: retention_loop.induct)
     (auto simp: emit_def Let_def split: prod.splits sum.splits bool.splits)

lemma loop_count_nonneg:
  "0 \<le> delete_count st \<Longrightarrow> 0 \<le> delete_count (snd (retention_loop e n l mk xs st))"
  by (induction e n l mk xs st rule: retention_loop.induct)
     (auto simp: emit_def Let_def split: prod.splits sum.splits bool.splits)

lemma delete_snapshot_never_exits: "snd (delete_snapshot e p) \<noteq> Inl (SystemExit k)"
  by (simp add: delete_snapshot_def log_external_output_def Let_def split: option.splits)

lemma loop_never_exits:
  "fst (retention_loop e n l mk xs st) \<noteq> Some (SystemExit k)"
proof (induction e n l mk xs st rule: retention_loop.induct)
  case (1 e n l mk st)
  then show ?case by simp
next
  case (2 e n l mk num path rest st)
  show ?case
    using 2 delete_snapshot_never_exits[of e path k]
    by (auto simp: Let_def split: prod.splits sum.splits bool.splits)
qed

lemma delete_snapshot_returns:
  "is_absolute p \<Longrightarrow> \<forall>q. btrfs e q = Some 0 \<Longrightarrow> \<exists>evs b. delete_snapshot e p = (evs, Inr b)"
  by (auto simp: delete_snapshot_def Let_def)

lemma loop_finishes:
  "\<forall>q. btrfs e q = Some 0 \<Longrightarrow> \<forall>s\<in>set xs. is_absolute (snd s)
     \<Longrightarrow> fst (retention_loop e n l mk xs st) = None"
proof (induction e n l mk xs st rule: retention_loop.induct)
  case (1 e n l mk st)
  then show ?case by simp
next
  case (2 e n l mk num path rest st)
  from 2(5,6) obtain evs b where d: "delete_snapshot e path = (evs, Inr b)"
    using delete_snapshot_returns[of path e] by auto
  show ?case
    using 2 d by (cases b) (auto simp: Let_def)
qed

lemma retention_engine_loop:
  "retention_engine e found l mk evs =
     (case retention_loop e (int (length found)) l mk (sort_key fst found)
             (initial_state (evs @ [Log DEBUG (List_of_snapshots (map fst (sort_key fst found)))])) of
        (Some x, st) \<Rightarrow> (Some x, st)
      | (None, st) \<Rightarrow> (None, emit [Log INFO (Successful_deletes (delete_count st)),
                              Log INFO (Delete_attempts (delete_attempts st)),
                              Log INFO (Total_discovered (int (length found)))] st))"
proof -
  define st0 where
    "st0 = initial_state (evs @ [Log DEBUG (List_of_snapshots (map fst (sort_key fst found)))])"
  define r where
    "r = retention_loop e (int (length found)) l mk (sort_key fst found) st0"
  have a0: "delete_attempts (snd r) = 0"
    unfolding r_def by (rule loop_attempts_zero) (simp add: st0_def initial_state_def)
  have c0: "0 \<le> delete_count (snd r)"
    unfolding r_def by (rule loop_count_nonneg) (simp add: st0_def initial_state_def)
  show ?thesis
    using a0 c0
    by (auto simp: retention_engine_def Let_def r_def st0_def emit_def
             split: prod.splits option.splits)
qed

lemma engine_attempted:
  "attempted (snd (retention_engine e found l mk evs)) =
   attempted (snd (retention_loop e (int (length found)) l mk (sort_key fst found)
             (initial_state (evs @ [Log DEBUG (List_of_snapshots (map fst (sort_key fst found)))]))))"
  by (simp add: retention_engine_loop emit_def split: prod.splits option.splits)

lemma engine_deleted:
  "deleted (snd (retention_engine e found l mk evs)) =
   deleted (snd (retention_loop e (int (length found)) l mk (sort_key fst found)
             (initial_state (evs @ [Log DEBUG (List_of_snapshots (map fst (sort_key fst found)))]))))"
  by (simp add: retention_engine_loop emit_def split: prod.splits option.splits)

lemma engine_fst:
  "fst (retention_engine e found l mk evs) =
   fst (retention_loop e (int (length found)) l mk (sort_key fst found)
             (initial_state (evs @ [Log DEBUG (List_of_snapshots (map fst (sort_key fst found)))])))"
  by (simp add: retention_engine_loop emit_def split: prod.splits option.splits)

lemma loop_attempted_not_latest:
  "0 < mk \<Longrightarrow> \<forall>s\<in>set (attempted st). Some (fst s) \<noteq> l
     \<Longrightarrow> \<forall>s\<in>set (attempted (snd (retention_loop e n l mk xs st))). Some (fst s) \<noteq> l"
proof (induction xs st rule: loop_cases[where n = n and mk = mk and l = l and e = e])
  case (Nil st)
  then show ?case by simp
next
  case (Break num path rest st)
  then show ?case by (simp add: loop_break)
next
  case (Skip_latest num path rest st)
  then show ?case by (simp add: loop_skip_latest emit_def)
next
  case (Skip_root num path rest st)
  then show ?case by (auto simp add: loop_skip_root emit_def)
next
  case (Raise num path rest st evs x)
  then show ?case by (auto simp add: loop_raise emit_def)
next
  case (Fail num path rest st evs)
  then show ?case by (auto simp add: loop_fail emit_def)
next
  case (Success num path rest st evs)
  then show ?case by (auto simp add: loop_success emit_def)
qed

lemma loop_deleted_attempted:
  "set (deleted st) \<subseteq> set (attempted st)
     \<Longrightarrow> set (deleted (snd (retention_loop e n l mk xs st)))
           \<subseteq> set (attempted (snd (retention_loop e n l mk xs st)))"
proof (induction xs st rule: loop_cases[where n = n and mk = mk and l = l and e = e])
  case (Nil st)
  then show ?case by simp
next
  case (Break num path rest st)
  then show ?case by (simp add: loop_break)
next
  case (Skip_latest num path rest st)
  then show ?case by (simp add: loop_skip_latest emit_def)
next
  case (Skip_root num path rest st)
  then show ?case by (auto simp add: loop_skip_root emit_def)
next
  case (Raise num path rest st evs x)
  then show ?case by (auto simp add: loop_raise emit_def)
next
  case (Fail num path rest st evs)
  then show ?case by (auto simp add: loop_fail emit_def)
next
  case (Success num path rest st evs)
  then show ?case by (auto simp add: loop_success emit_def)
qed

lemma loop_marker_ignored:
  "retention_loop e n l 0 xs st = retention_loop e n None 0 xs st"
proof (induction xs st rule: loop_cases[where n = n and mk = 0 and l = l and e = e])
  case (Nil st)
  then show ?case by simp
next
  case (Break num path rest st)
  then show ?case by (simp add: loop_break)
next
  case (Skip_latest num path rest st)
  then show ?case by simp
next
  case (Skip_root num path rest st)
  then show ?case by (auto simp add: loop_skip_root)
next
  case (Raise num path rest st evs x)
  then show ?case by (auto simp add: loop_raise)
next
  case (Fail num path rest st evs)
  then show ?case by (auto simp add: loop_fail)
next
  case (Success num path rest st evs)
  then show ?case by (auto simp add: loop_success)
qed

lemma loop_keep_nothing:
  "delete_attempts st = 0 \<Longrightarrow> 0 < n \<Longrightarrow> fst (retention_loop e n l 0 xs st) = None
     \<Longrightarrow> attempted (snd (retention_loop e n l 0 xs st))
         = attempted st @ filter (\<lambda>s. snd s \<noteq> PosixPath Root []) xs"
proof (induction xs st rule: loop_cases[where n = n and mk = 0 and l = l and e = e])
  case (Nil st)
  then show ?case by simp
next
  case (Break num path rest st)
  then show ?case by simp
next
  case (Skip_latest num path rest st)
  then show ?case by simp
next
  case (Skip_root num path rest st)
  then show ?case by (auto simp add: loop_skip_root emit_def)
next
  case (Raise num path rest st evs x)
  then show ?case by (auto simp add: loop_raise)
next
  case (Fail num path rest st evs)
  then show ?case by (auto simp add: loop_fail emit_def)
next
  case (Success num path rest st evs)
  then show ?case by (auto simp add: loop_success emit_def)
qed



section \<open>The snapshot deleter\<close>

text \<open>
  C6. The claim: when the volume removal ends with a non-zero status,
  \<open>delete_snapshot\<close> logs the captured output of the tool and returns failure, the
  directory removal not being attempted. The function does not get that far. The
  volume removal is run without \<open>capture_output\<close>, so both outputs of its result are
  \<open>None\<close>, and \<open>log_external_output\<close> calls \<open>strip\<close> on \<open>None\<close>. At the snapshot
  \<open>/mnt/backup/root/1\<close>, with a volume removal that ends with status 1, the function
  runs the volume removal, logs the error line, and then leaves with an
  AttributeError instead of returning \<open>False\<close>; nothing of the tool's output is
  logged, and \<open>rmtree\<close> is not run.
\<close>

theorem delete_snapshot_volume_failure_raises:
  "delete_snapshot env_volume_fails (child_path backup_dir ''1'') =
     ([Run_btrfs_subvolume_delete (child_path (child_path backup_dir ''1'') ''subvolume''),
       Log ERROR (Failed_to_delete_subvolume
                    (child_path (child_path backup_dir ''1'') ''subvolume''))],
      Inl AttributeError)"
  by (simp add: delete_snapshot_def env_defs path_defs log_external_output_def Let_def)

section \<open>The attempt counter and the exit check\<close>

text \<open>
  C9, as amended. \<open>delete_attempts\<close> starts at 0 and is only ever set to 0, so it is 0
  in the state the retention engine ends in, the test \<open>delete_attempts > delete_count\<close>
  is false there, and the engine never leaves through \<open>exit(1)\<close>, whatever the
  deletions did. When every volume removal ends with status 0, so that each call of
  \<open>delete_snapshot\<close> returns, the exit status is 0 however many directory removals
  failed. (The claim went further and said that the exit status never reflects a
  failed deletion; a failed volume removal does change it, see the counterexample.)
\<close>

theorem delete_attempts_stays_zero:
  "delete_attempts (snd (retention_engine e found latest mk evs)) = 0
   \<and> \<not> delete_attempts (snd (retention_engine e found latest mk evs))
         > delete_count (snd (retention_engine e found latest mk evs))
   \<and> (\<forall>k. fst (retention_engine e found latest mk evs) \<noteq> Some (SystemExit k))
   \<and> ((\<forall>q. btrfs e q = Some 0) \<and> (\<forall>s\<in>set found. is_absolute (snd s))
        \<longrightarrow> exit_status (fst (retention_engine e found latest mk evs)) = 0)"
proof -
  define st0 where
    "st0 = initial_state (evs @ [Log DEBUG (List_of_snapshots (map fst (sort_key fst found)))])"
  define r where
    "r = retention_loop e (int (length (sort_key fst found))) latest mk (sort_key fst found) st0"
  have a0: "delete_attempts (snd r) = 0"
    unfolding r_def by (rule loop_attempts_zero) (simp add: st0_def initial_state_def)
  have c0: "0 \<le> delete_count (snd r)"
    unfolding r_def by (rule loop_count_nonneg) (simp add: st0_def initial_state_def)
  have nx: "fst r \<noteq> Some (SystemExit k)" for k
    unfolding r_def by (rule loop_never_exits)
  have eng: "retention_engine e found latest mk evs =
     (case r of (Some x, st) \<Rightarrow> (Some x, st)
      | (None, st) \<Rightarrow> (None, emit [Log INFO (Successful_deletes (delete_count st)),
                              Log INFO (Delete_attempts (delete_attempts st)),
                              Log INFO (Total_discovered (int (length (sort_key fst found))))] st))"
    using a0 c0
    by (auto simp: retention_engine_def Let_def r_def st0_def emit_def
             split: prod.splits option.splits)
  have fin: "fst r = None"
    if "\<forall>q. btrfs e q = Some 0" "\<forall>s\<in>set found. is_absolute (snd s)"
    unfolding r_def using that by (intro loop_finishes) auto
  show ?thesis
    using a0 c0 nx fin unfolding eng
    by (cases r) (auto simp: emit_def split: option.splits)
qed

text \<open>Witness: three snapshots, nothing to keep, every directory removal raises. All
  three deletions fail and the exit status is 0.\<close>

theorem delete_attempts_stays_zero_witness:
  "(\<forall>q. btrfs env_rmtree_fails q = Some 0)
   \<and> list_all (\<lambda>s. is_absolute (snd s)) three_snapshots
   \<and> deleted (snd (retention_engine env_rmtree_fails three_snapshots None 0 [])) = []
   \<and> attempted (snd (retention_engine env_rmtree_fails three_snapshots None 0 []))
       = three_snapshots
   \<and> delete_attempts (snd (retention_engine env_rmtree_fails three_snapshots None 0 [])) = 0
   \<and> exit_status (fst (retention_engine env_rmtree_fails three_snapshots None 0 [])) = 0"
  using delete_attempts_stays_zero[of env_rmtree_fails three_snapshots None 0 "[]"]
  by (simp add: run_defs env_defs path_defs)

text \<open>Counterexample to C9 as stated: with a volume removal that ends with status 1,
  the first \<open>delete_snapshot\<close> raises, nothing catches it, and the process ends with
  status 1, while the same run with successful removals ends with status 0.\<close>

theorem exit_status_reflects_volume_failure:
  "exit_status (fst (retention_engine env_volume_fails three_snapshots None 0 [])) = 1
   \<and> exit_status (fst (retention_engine env_ok three_snapshots None 0 [])) = 0"
  by (simp add: run_defs env_defs path_defs)

section \<open>The retention engine\<close>

text \<open>
  C1. The claim: after a run with \<open>maxKeep = K\<close> at least \<open>min(K, totalDiscovered)\<close>
  snapshots remain, and for the snapshots 1 to 5 with latest marker 5 and
  \<open>maxKeep = 2\<close> exactly 1, 2 and 3 are deleted and 4 and 5 are kept. The code does
  not do this. Its loop stops on \<open>len(snapshots) - delete_attempts \<le> max_keep\<close>, and
  since \<open>delete_attempts\<close> is set to 0 instead of being counted up, that test never
  changes during a run. In the scenario, with every deletion succeeding, snapshots 1,
  2, 3 and 4 are deleted and only the marked snapshot 5 remains: one snapshot, fewer
  than \<open>min(2, 5)\<close>.
\<close>

theorem keep_two_of_five_keeps_only_latest:
  "fst (retention_engine env_ok five_snapshots (Some 5) 2 []) = None
   \<and> deleted (snd (retention_engine env_ok five_snapshots (Some 5) 2 []))
       = [snap 1 ''1'', snap 2 ''2'', snap 3 ''3'', snap 4 ''4'']
   \<and> remaining five_snapshots (snd (retention_engine env_ok five_snapshots (Some 5) 2 []))
       = [snap 5 ''5'']
   \<and> int (length (remaining five_snapshots
                    (snd (retention_engine env_ok five_snapshots (Some 5) 2 []))))
       < min 2 (int (length five_snapshots))"
  by (simp add: run_defs env_defs path_defs remaining_def)

text \<open>
  C3. When \<open>max_keep > 0\<close>, no snapshot whose number is the latest marker is passed to
  \<open>delete_snapshot\<close>, so none is deleted. When \<open>max_keep = 0\<close>, the marker plays no
  part: the run is the run without a marker, and a run that no exception ends calls
  \<open>delete_snapshot\<close> on every snapshot whose path is not \<open>/\<close>, in ascending order of
  number, the marked one among them.
\<close>

theorem latest_marker_protection:
  "(0 < mk \<longrightarrow>
      (\<forall>s\<in>set (attempted (snd (retention_engine e found latest mk evs))). Some (fst s) \<noteq> latest)
      \<and> (\<forall>s\<in>set (deleted (snd (retention_engine e found latest mk evs))). Some (fst s) \<noteq> latest))
   \<and> retention_engine e found latest 0 evs = retention_engine e found None 0 evs
   \<and> (fst (retention_engine e found latest 0 evs) = None \<longrightarrow>
        attempted (snd (retention_engine e found latest 0 evs))
          = filter (\<lambda>s. snd s \<noteq> PosixPath Root []) (sort_key fst found))"
proof -
  let ?st0 = "initial_state (evs @ [Log DEBUG (List_of_snapshots (map fst (sort_key fst found)))])"
  let ?n = "int (length found)"
  have a: "\<forall>s\<in>set (attempted (snd (retention_loop e ?n latest mk (sort_key fst found) ?st0))).
             Some (fst s) \<noteq> latest" if "0 < mk"
    using that by (intro loop_attempted_not_latest) (simp_all add: initial_state_def)
  have d: "set (deleted (snd (retention_loop e ?n latest mk (sort_key fst found) ?st0)))
      \<subseteq> set (attempted (snd (retention_loop e ?n latest mk (sort_key fst found) ?st0)))"
    by (intro loop_deleted_attempted) (simp add: initial_state_def)
  have one: "0 < mk \<longrightarrow>
      (\<forall>s\<in>set (attempted (snd (retention_engine e found latest mk evs))). Some (fst s) \<noteq> latest)
      \<and> (\<forall>s\<in>set (deleted (snd (retention_engine e found latest mk evs))). Some (fst s) \<noteq> latest)"
    using a d unfolding engine_attempted engine_deleted by blast
  have two: "retention_engine e found latest 0 evs = retention_engine e found None 0 evs"
    unfolding retention_engine_loop by (simp add: loop_marker_ignored[of e _ latest])
  have three: "attempted (snd (retention_engine e found latest 0 evs))
          = filter (\<lambda>s. snd s \<noteq> PosixPath Root []) (sort_key fst found)"
    if fin: "fst (retention_engine e found latest 0 evs) = None"
  proof (cases "found = []")
    case True
    then show ?thesis by (simp add: engine_attempted initial_state_def)
  next
    case False
    have "delete_attempts ?st0 = 0" by (simp add: initial_state_def)
    moreover from False have "0 < ?n" by simp
    moreover have "fst (retention_loop e ?n latest 0 (sort_key fst found) ?st0) = None"
      using fin unfolding engine_fst .
    ultimately have "attempted (snd (retention_loop e ?n latest 0 (sort_key fst found) ?st0))
        = attempted ?st0 @ filter (\<lambda>s. snd s \<noteq> PosixPath Root []) (sort_key fst found)"
      by (rule loop_keep_nothing)
    then show ?thesis unfolding engine_attempted by (simp add: initial_state_def)
  qed
  from one two three show ?thesis by blast
qed

text \<open>Witness: the snapshots 1 to 5 with marker 5. Keeping 2, the calls are on 1 to 4;
  keeping 0, they are on all five.\<close>

theorem latest_marker_protection_witness:
  "(0::int) < 2
   \<and> map fst (attempted (snd (retention_engine env_ok five_snapshots (Some 5) 2 []))) = [1, 2, 3, 4]
   \<and> map fst (deleted (snd (retention_engine env_ok five_snapshots (Some 5) 2 []))) = [1, 2, 3, 4]
   \<and> fst (retention_engine env_ok five_snapshots (Some 5) 0 []) = None
   \<and> attempted (snd (retention_engine env_ok five_snapshots (Some 5) 0 [])) = five_snapshots"
  using latest_marker_protection[of 2 env_ok five_snapshots "Some 5" "[]"]
  by (simp add: run_defs env_defs path_defs)




text \<open>
  C2. The claim: every attempt is recorded, and the process ends with a non-zero
  status exactly when some deletion attempt did not succeed. The comment above the
  last test of the script says the same. The code never counts an attempt: with the
  snapshots 1 and 2, nothing to keep, and a directory removal that raises each time,
  both calls of \<open>delete_snapshot\<close> return \<open>False\<close>, \<open>delete_attempts\<close> and
  \<open>delete_count\<close> are both 0 at the end, and the exit status is 0.
\<close>

theorem failed_deletions_exit_zero:
  "exit_status (fst (main env_two_rmtree_fails (cleanup_args 0))) = 0
   \<and> map fst (attempted (snd (main env_two_rmtree_fails (cleanup_args 0)))) = [1, 2]
   \<and> deleted (snd (main env_two_rmtree_fails (cleanup_args 0))) = []
   \<and> delete_count (snd (main env_two_rmtree_fails (cleanup_args 0))) = 0
   \<and> delete_attempts (snd (main env_two_rmtree_fails (cleanup_args 0))) = 0"
  by (simp add: main_def get_snapshot_root_path_def get_snapshots_def get_latest_snapshot_num_def
        run_defs env_defs path_defs text_defs)

section \<open>The latest-marker resolver\<close>

lemma scan_latest_filter:
  "scan_latest ls =
     (case filter (\<lambda>line. str_in ''latest incremental backup'' line
                           \<and> py_int (first_field line) \<noteq> None) ls of
        [] \<Rightarrow> None
      | line # _ \<Rightarrow> py_int (first_field line))"
  by (induction ls) (auto split: option.splits)

lemma scan_latest_no_marker:
  "\<forall>line\<in>set ls. \<not> str_in ''latest incremental backup'' line \<Longrightarrow> scan_latest ls = None"
  by (induction ls) auto

text \<open>
  C5, as amended. \<open>get_latest_snapshot_num\<close> goes through the lines of the stripped
  listing from the last to the first and returns the integer of the first field of
  the last line that contains \<open>latest incremental backup\<close> and whose first field
  converts; a marked line whose first field does not convert is passed over and the
  scan goes on with the lines before it. The result is absent when no line has both,
  in particular when no line contains the marker. A listing tool that ends with
  status 0 leads to exactly this value, with nothing logged.
\<close>

theorem latest_is_last_parsable_marker_line:
  "latest_of_listing out =
     (case filter (\<lambda>line. str_in ''latest incremental backup'' line
                           \<and> py_int (first_field line) \<noteq> None)
                  (rev (splitlines (strip out))) of
        [] \<Rightarrow> None
      | line # _ \<Rightarrow> py_int (first_field line))
   \<and> ((\<forall>line\<in>set (splitlines (strip out)). \<not> str_in ''latest incremental backup'' line)
        \<longrightarrow> latest_of_listing out = None)
   \<and> (snapper e cfg = Some (0, out, err)
        \<longrightarrow> get_latest_snapshot_num e cfg = ([], Inr (latest_of_listing out)))"
  using scan_latest_no_marker[of "rev (splitlines (strip out))"]
  by (simp add: latest_of_listing_def scan_latest_filter get_latest_snapshot_num_def)

text \<open>Witness: the listing of the counterexample, a listing without a marker, and the
  listing of \<open>env_ok\<close>.\<close>

theorem latest_is_last_parsable_marker_line_witness:
  "latest_of_listing listing_bad_last = Some 7
   \<and> list_all (\<lambda>line. \<not> str_in ''latest incremental backup'' line) (splitlines (strip ''1 | first''))
   \<and> latest_of_listing ''1 | first'' = None
   \<and> snapper env_ok ''root'' = Some (0, ''5 | latest incremental backup'', [])
   \<and> get_latest_snapshot_num env_ok ''root'' = ([], Inr (Some 5))"
  using latest_is_last_parsable_marker_line[of listing_bad_last env_ok "''root''" "[]"] latest_is_last_parsable_marker_line[of "''1 | first''" env_ok "''root''" "[]"]
    latest_is_last_parsable_marker_line[of "''5 | latest incremental backup''" env_ok "''root''" "[]"]
  by (simp add: text_defs listing_bad_last_def env_defs)

text \<open>Counterexample to C5 as stated: the last line with the marker starts with \<open>x\<close>,
  which is no integer; the result is not absent but 7, from the line before.\<close>

theorem latest_scan_goes_past_bad_line:
  "splitlines (strip listing_bad_last)
     = [''7 | latest incremental backup'', ''x | latest incremental backup'']
   \<and> str_in ''latest incremental backup'' ''x | latest incremental backup''
   \<and> py_int (first_field ''x | latest incremental backup'') = None
   \<and> latest_of_listing listing_bad_last = Some 7"
  by (simp add: text_defs listing_bad_last_def)

section \<open>The snapshot enumerator\<close>

lemma digit_val_nonneg: "is_digit c \<Longrightarrow> 0 \<le> digit_val c"
  by (simp add: is_digit_def digit_val_def)

lemma int_digits_nonneg: "0 \<le> acc \<Longrightarrow> int_digits acc s = Some n \<Longrightarrow> 0 \<le> n"
  by (induction acc s rule: int_digits.induct)
     (auto simp: digit_val_nonneg split: if_splits)

lemma int_unsigned_nonneg: "int_unsigned s = Some n \<Longrightarrow> 0 \<le> n"
  by (auto simp: int_unsigned_def digit_val_nonneg split: list.splits if_splits
           dest: int_digits_nonneg[rotated])

lemma int_digits_total: "list_all is_digit s \<Longrightarrow> \<exists>n. int_digits acc s = Some n"
  by (induction acc s rule: int_digits.induct) auto

lemma trimmed_head:
  assumes "rev (dropWhile P (rev u)) = c # cs"
  shows "\<exists>r. u = c # r"
proof -
  have "rev u = takeWhile P (rev u) @ dropWhile P (rev u)" by simp
  then have "u = rev (dropWhile P (rev u)) @ rev (takeWhile P (rev u))"
    by (metis rev_append rev_rev_ident)
  with assms show ?thesis by (metis append_Cons)
qed

lemma py_int_negative:
  assumes "py_int s = Some n" and "n < 0"
  shows "\<exists>r. dropWhile is_int_space s = CHR ''-'' # r"
proof -
  let ?t = "rev (dropWhile is_int_space (rev (dropWhile is_int_space s)))"
  from assms(1) obtain c cs where t: "?t = c # cs"
    by (cases ?t) (auto simp: py_int_def Let_def)
  have "c = CHR ''-''"
  proof (rule ccontr)
    assume "c \<noteq> CHR ''-''"
    with assms(1) t have "int_unsigned cs = Some n \<or> int_unsigned ?t = Some n"
      by (auto simp: py_int_def Let_def split: if_splits)
    then have "0 \<le> n" using int_unsigned_nonneg by blast
    with assms(2) show False by simp
  qed
  with t trimmed_head[of is_int_space "dropWhile is_int_space s" c cs] show ?thesis by simp
qed

lemma digit_not_blank: "is_digit c \<Longrightarrow> \<not> is_int_space c"
  by (auto simp: is_digit_def is_int_space_def)

lemma py_int_digits:
  assumes "s \<noteq> []" and "list_all is_digit s"
  shows "\<exists>n. py_int s = Some n \<and> 0 \<le> n"
proof -
  from assms obtain c cs where s: "s = c # cs" and c: "is_digit c" and cs: "list_all is_digit cs"
    by (cases s) auto
  have d1: "dropWhile is_int_space s = s"
    using c by (simp add: s digit_not_blank)
  have "is_digit (last s)" using assms by (metis last_in_set list_all_iff)
  then have "\<not> is_int_space (hd (rev s))" using assms(1) by (simp add: hd_rev digit_not_blank)
  then have d2: "dropWhile is_int_space (rev s) = rev s"
    using assms(1) by (cases "rev s") auto
  have nm: "c \<noteq> CHR ''-''" "c \<noteq> CHR ''+''" using c by (auto simp: is_digit_def)
  obtain n where n: "int_digits (digit_val c) cs = Some n"
    using int_digits_total[OF cs] by blast
  have "py_int s = Some n"
    using c nm n by (simp add: py_int_def d1 d2 Let_def s[symmetric]) (simp add: s int_unsigned_def)
  moreover have "0 \<le> n" using n c int_digits_nonneg digit_val_nonneg by blast
  ultimately show ?thesis by blast
qed

lemma scan_children_set:
  "set (snd (scan_children e cs))
     = {(n, c). c \<in> set cs \<and> path_is_dir e c \<and> py_int (name_of c) = Some n}"
  by (induction cs) (auto split: prod.splits option.splits)

lemma scan_children_debug:
  "ev \<in> set (fst (scan_children e cs)) \<Longrightarrow> \<exists>m. ev = Log DEBUG m"
  by (induction cs arbitrary: ev) (auto split: prod.splits option.splits if_splits)

lemma scan_children_length:
  "length (fst (scan_children e cs)) + length (snd (scan_children e cs)) = length cs"
  by (induction cs) (auto split: prod.splits option.splits)

lemma name_of_child: "name_of (child_path p n) = n"
  by (simp add: name_of_def child_path_def)

text \<open>
  C7, as amended. \<open>get_snapshots\<close> returns a snapshot for exactly those children that
  are directories and whose name \<open>int\<close> converts, with the converted number; every
  other child is passed over with one line at debug level. \<open>int\<close> takes a sign:
  a number is negative only for a name whose literal begins with \<open>-\<close>, and a name
  made of digits alone always converts, to a non-negative number.
\<close>

theorem get_snapshots_emits_int_named_directories:
  "((n, p) \<in> set (snd (get_snapshots e root)) \<longleftrightarrow>
      (\<exists>name\<in>set (iterdir e root).
          p = child_path root name \<and> path_is_dir e p \<and> py_int name = Some n))
   \<and> (\<forall>ev\<in>set (fst (get_snapshots e root)). \<exists>m. ev = Log DEBUG m)
   \<and> length (fst (get_snapshots e root)) + length (snd (get_snapshots e root))
       = length (iterdir e root)
   \<and> (py_int name = Some k \<and> k < 0 \<longrightarrow> (\<exists>r. dropWhile is_int_space name = CHR ''-'' # r))
   \<and> (name \<noteq> [] \<and> list_all is_digit name \<longrightarrow> (\<exists>k. py_int name = Some k \<and> 0 \<le> k))"
proof -
  have a: "(n, p) \<in> set (snd (get_snapshots e root)) \<longleftrightarrow>
      (\<exists>name\<in>set (iterdir e root).
          p = child_path root name \<and> path_is_dir e p \<and> py_int name = Some n)"
    by (auto simp: get_snapshots_def scan_children_set name_of_child)
  have b: "\<forall>ev\<in>set (fst (get_snapshots e root)). \<exists>m. ev = Log DEBUG m"
    using scan_children_debug by (auto simp: get_snapshots_def)
  have c: "length (fst (get_snapshots e root)) + length (snd (get_snapshots e root))
       = length (iterdir e root)"
    by (simp add: get_snapshots_def scan_children_length)
  show ?thesis using a b c py_int_negative py_int_digits by blast
qed

text \<open>Witness: the directory with the entries \<open>-5\<close>, \<open>12\<close>, \<open>notes\<close> and the plain
  file \<open>13\<close>.\<close>

theorem get_snapshots_emits_int_named_directories_witness:
  "snd (get_snapshots env_mixed_entries backup_dir)
     = [(- 5, child_path backup_dir ''-5''), (12, child_path backup_dir ''12'')]
   \<and> list_all (\<lambda>ev. ev \<in> {Log DEBUG (Ignoring_non_numerical (child_path backup_dir ''notes'')),
         Log DEBUG (Ignoring_non_directory (child_path backup_dir ''13''))})
        (fst (get_snapshots env_mixed_entries backup_dir))
   \<and> py_int ''-5'' = Some (- 5) \<and> (- 5 :: int) < 0
   \<and> dropWhile is_int_space ''-5'' = ''-5''
   \<and> ''12'' \<noteq> [] \<and> list_all is_digit ''12'' \<and> py_int ''12'' = Some 12"
  using get_snapshots_emits_int_named_directories[of "- 5" "child_path backup_dir ''-5''" env_mixed_entries backup_dir "''-5''" "- 5"]
    get_snapshots_emits_int_named_directories[of 12 "child_path backup_dir ''12''" env_mixed_entries backup_dir "''12''" 12]
  by (simp add: get_snapshots_def env_defs path_defs text_defs)

text \<open>Counterexample to C7 as stated: the directory named \<open>-5\<close> is returned as a
  snapshot, and its number is negative.\<close>

theorem get_snapshots_emits_negative_number:
  "get_snapshots env_mixed_entries backup_dir
     = ([Log DEBUG (Ignoring_non_numerical (child_path backup_dir ''notes'')),
         Log DEBUG (Ignoring_non_directory (child_path backup_dir ''13''))],
        [(- 5, child_path backup_dir ''-5''), (12, child_path backup_dir ''12'')])"
  by (simp add: get_snapshots_def env_defs path_defs text_defs)

section \<open>Absolute paths in the main flow\<close>

lemma absolute_is_absolute: "is_absolute (absolute c p)"
  by (simp add: absolute_def is_absolute_def)

lemma root_path_absolute:
  "get_snapshot_root_path e r c = (evs, Inr p) \<Longrightarrow> is_absolute p"
  by (auto simp: get_snapshot_root_path_def Let_def absolute_is_absolute split: if_splits)

lemma root_path_error:
  "get_snapshot_root_path e r c = (evs, Inl x) \<Longrightarrow> x = SystemExit 1"
  by (auto simp: get_snapshot_root_path_def Let_def split: if_splits)

lemma latest_error:
  "get_latest_snapshot_num e c = (evs, Inl x) \<Longrightarrow> x = SystemExit 1 \<or> x = OSError"
  by (auto simp: get_latest_snapshot_num_def log_external_output_def Let_def
           split: option.splits if_splits prod.splits)

lemma scan_children_subset:
  "s \<in> set (snd (scan_children e cs)) \<Longrightarrow> snd s \<in> set cs"
  by (induction cs arbitrary: s) (auto split: prod.splits option.splits if_splits)

lemma child_absolute: "is_absolute p \<Longrightarrow> is_absolute (child_path p n)"
  by (simp add: is_absolute_def child_path_def)

lemma snapshots_absolute:
  "is_absolute p \<Longrightarrow> s \<in> set (snd (get_snapshots e p)) \<Longrightarrow> is_absolute (snd s)"
  by (auto simp: get_snapshots_def child_absolute dest!: scan_children_subset)

lemma delete_snapshot_error:
  "is_absolute p \<Longrightarrow> delete_snapshot e p = (evs, Inl x) \<Longrightarrow> x = OSError \<or> x = AttributeError"
  by (auto simp: delete_snapshot_def log_external_output_def Let_def
           split: option.splits if_splits)

lemma loop_no_assertion:
  "\<forall>s\<in>set xs. is_absolute (snd s)
     \<Longrightarrow> fst (retention_loop e n l mk xs st) \<noteq> Some (AssertionError a)"
proof (induction xs st rule: loop_cases[where n = n and mk = mk and l = l and e = e])
  case (Nil st)
  then show ?case by simp
next
  case (Break num path rest st)
  then show ?case by (simp add: loop_break)
next
  case (Skip_latest num path rest st)
  then show ?case by (simp add: loop_skip_latest)
next
  case (Skip_root num path rest st)
  then show ?case by (auto simp add: loop_skip_root)
next
  case (Raise num path rest st evs x)
  then have "x = OSError \<or> x = AttributeError"
    using delete_snapshot_error[of path e evs x] by simp
  with Raise show ?case by (auto simp add: loop_raise)
next
  case (Fail num path rest st evs)
  then show ?case by (auto simp add: loop_fail)
next
  case (Success num path rest st evs)
  then show ?case by (auto simp add: loop_success)
qed

lemma engine_no_assertion:
  "\<forall>s\<in>set found. is_absolute (snd s)
     \<Longrightarrow> fst (retention_engine e found l mk evs) \<noteq> Some (AssertionError a)"
  unfolding engine_fst by (rule loop_no_assertion) simp

text \<open>
  C10. The path that \<open>get_snapshot_root_path\<close> returns is absolute, every path that
  \<open>get_snapshots\<close> lists below it is absolute, and no run of the script ends in the
  assertion at the top of \<open>delete_snapshot\<close>.
\<close>

theorem main_flow_paths_absolute:
  "(get_snapshot_root_path e r c = (evs, Inr p) \<longrightarrow>
        is_absolute p \<and> (\<forall>s\<in>set (snd (get_snapshots e p)). is_absolute (snd s)))
   \<and> fst (main e a) \<noteq> Some (AssertionError ''path.is_absolute()'')"
proof -
  have one: "is_absolute p \<and> (\<forall>s\<in>set (snd (get_snapshots e p)). is_absolute (snd s))"
    if "get_snapshot_root_path e r c = (evs, Inr p)"
    using root_path_absolute[OF that] snapshots_absolute by blast
  have two: "fst (main e a) \<noteq> Some (AssertionError ''path.is_absolute()'')"
  proof (cases "max_keep a \<ge> 0")
    case False
    then show ?thesis by (simp add: main_def)
  next
    case mk: True
    obtain evs2 r2 where l: "get_latest_snapshot_num e (config a) = (evs2, r2)"
      by (cases "get_latest_snapshot_num e (config a)")
    show ?thesis
    proof (cases r2)
      case (Inl x)
      then show ?thesis using mk l latest_error[of e "config a" evs2 x]
        by (auto simp: main_def Let_def)
    next
      case (Inr latest)
      obtain evs4 r4 where g: "get_snapshot_root_path e (remote a) (config a) = (evs4, r4)"
        by (cases "get_snapshot_root_path e (remote a) (config a)")
      show ?thesis
      proof (cases r4)
        case (Inl x)
        then show ?thesis using mk l Inr g root_path_error[of e "remote a" "config a" evs4 x]
          by (auto simp: main_def Let_def)
      next
        case (Inr sp)
        then have "is_absolute sp" using g root_path_absolute by blast
        then have "\<forall>s\<in>set (snd (get_snapshots e sp)). is_absolute (snd s)"
          using snapshots_absolute by blast
        then show ?thesis using mk l \<open>r2 = Inr latest\<close> g Inr
          by (auto simp: main_def Let_def engine_no_assertion split: prod.splits)
      qed
    qed
  qed
  from one two show ?thesis by blast
qed

text \<open>Witness: the run over the snapshots 1 and 2 of \<open>/mnt/backup/root\<close>.\<close>

theorem main_flow_paths_absolute_witness:
  "get_snapshot_root_path env_two_rmtree_fails ''/mnt/backup'' ''root'' = ([], Inr backup_dir)
   \<and> is_absolute backup_dir
   \<and> map snd (snd (get_snapshots env_two_rmtree_fails backup_dir))
       = [child_path backup_dir ''1'', child_path backup_dir ''2'']
   \<and> list_all (\<lambda>s. is_absolute (snd s)) (snd (get_snapshots env_two_rmtree_fails backup_dir))
   \<and> fst (main env_two_rmtree_fails (cleanup_args 0)) = None"
  using main_flow_paths_absolute[of env_two_rmtree_fails "''/mnt/backup''" "''root''" "[]" backup_dir "cleanup_args 0"]
  by (simp add: main_def get_snapshot_root_path_def get_snapshots_def get_latest_snapshot_num_def
        run_defs env_defs path_defs text_defs)

section \<open>The guard against the root path\<close>

lemma delete_snapshot_no_root_warning:
  "Log WARNING (Skipping_root p) \<notin> set (fst (delete_snapshot e q))"
  by (auto simp: delete_snapshot_def log_external_output_def Let_def split: option.splits)

lemma loop_root_guard_dead:
  "\<forall>s\<in>set xs. snd s \<noteq> PosixPath Root []
     \<Longrightarrow> Log WARNING (Skipping_root p) \<notin> set (events st)
     \<Longrightarrow> Log WARNING (Skipping_root p) \<notin> set (events (snd (retention_loop e n l mk xs st)))"
proof (induction xs st rule: loop_cases[where n = n and mk = mk and l = l and e = e])
  case (Nil st)
  then show ?case by simp
next
  case (Break num path rest st)
  then show ?case by (simp add: loop_break)
next
  case (Skip_latest num path rest st)
  then show ?case by (simp add: loop_skip_latest emit_def)
next
  case (Skip_root num path rest st)
  then show ?case by simp
next
  case (Raise num path rest st evs x)
  then show ?case
    using delete_snapshot_no_root_warning[of p e path] by (auto simp add: loop_raise emit_def)
next
  case (Fail num path rest st evs)
  then show ?case
    using delete_snapshot_no_root_warning[of p e path] by (auto simp add: loop_fail emit_def)
next
  case (Success num path rest st evs)
  then show ?case
    using delete_snapshot_no_root_warning[of p e path] by (auto simp add: loop_success emit_def)
qed

lemma engine_root_guard_dead:
  assumes "\<forall>s\<in>set found. snd s \<noteq> PosixPath Root []"
    and "Log WARNING (Skipping_root p) \<notin> set evs"
  shows "Log WARNING (Skipping_root p) \<notin> set (events (snd (retention_engine e found l mk evs)))"
proof -
  let ?st0 = "initial_state (evs @ [Log DEBUG (List_of_snapshots (map fst (sort_key fst found)))])"
  have "Log WARNING (Skipping_root p)
      \<notin> set (events (snd (retention_loop e (int (length found)) l mk (sort_key fst found) ?st0)))"
    using assms by (intro loop_root_guard_dead) (simp_all add: initial_state_def)
  then show ?thesis
    by (auto simp: retention_engine_loop emit_def split: prod.splits option.splits)
qed

lemma latest_no_root_warning:
  "Log WARNING (Skipping_root p) \<notin> set (fst (get_latest_snapshot_num e c))"
  by (auto simp: get_latest_snapshot_num_def log_external_output_def Let_def
           split: option.splits prod.splits if_splits)

lemma root_path_no_root_warning:
  "Log WARNING (Skipping_root p) \<notin> set (fst (get_snapshot_root_path e r c))"
  by (auto simp: get_snapshot_root_path_def Let_def)

lemma snapshots_below_root:
  "s \<in> set (snd (get_snapshots e sp)) \<Longrightarrow> snd s \<noteq> PosixPath Root []"
  by (auto simp: get_snapshots_def child_path_def dest!: scan_children_subset)

lemma snapshots_no_root_warning:
  "Log WARNING (Skipping_root p) \<notin> set (fst (get_snapshots e sp))"
  using scan_children_debug by (fastforce simp: get_snapshots_def)

lemma main_root_guard_dead:
  "Log WARNING (Skipping_root p) \<notin> set (events (snd (main e a)))"
proof (cases "max_keep a \<ge> 0")
  case False
  then show ?thesis by (simp add: main_def initial_state_def)
next
  case mk: True
  obtain evs2 r2 where l: "get_latest_snapshot_num e (config a) = (evs2, r2)"
    by (cases "get_latest_snapshot_num e (config a)")
  have e2: "Log WARNING (Skipping_root p) \<notin> set evs2"
    using latest_no_root_warning[of p e "config a"] l by simp
  show ?thesis
  proof (cases r2)
    case (Inl x)
    then show ?thesis using mk l e2 by (auto simp: main_def Let_def initial_state_def)
  next
    case (Inr latest)
    obtain evs4 r4 where g: "get_snapshot_root_path e (remote a) (config a) = (evs4, r4)"
      by (cases "get_snapshot_root_path e (remote a) (config a)")
    have e4: "Log WARNING (Skipping_root p) \<notin> set evs4"
      using root_path_no_root_warning[of p e "remote a" "config a"] g by simp
    show ?thesis
    proof (cases r4)
      case (Inl x)
      then show ?thesis using mk l Inr g e2 e4 by (auto simp: main_def Let_def initial_state_def)
    next
      case (Inr sp)
      obtain evs5 found where s: "get_snapshots e sp = (evs5, found)"
        by (cases "get_snapshots e sp")
      have e5: "Log WARNING (Skipping_root p) \<notin> set evs5"
        using snapshots_no_root_warning[of p e sp] s by simp
      have f: "\<forall>s\<in>set found. snd s \<noteq> PosixPath Root []"
        using snapshots_below_root[of _ e sp] s by simp
      have "Log WARNING (Skipping_root p) \<notin> set (events (snd (retention_engine e found latest
           (max_keep a) ((if max_keep a = 0 then [Log WARNING Max_keep_zero] else []) @ evs2
             @ [Log INFO (Latest_backup_number latest)] @ evs4 @ evs5))))"
        using f e2 e4 e5 by (intro engine_root_guard_dead) auto
      then show ?thesis using mk l \<open>r2 = Inr latest\<close> g Inr s
        by (simp add: main_def Let_def)
    qed
  qed
qed

text \<open>
  C8. The claim: a snapshot whose path resolves to the file system root is never
  passed to the deleter, and is skipped with a warning. The guard of the loop
  compares the path as it is written with \<open>/\<close> and resolves nothing, though its own
  warning speaks of a path that resolves to the root. Every path the script lists
  is the backup directory followed by a name, so in no run does the guard fire. With
  a backup directory whose entry \<open>7\<close> is a symbolic link to \<open>/\<close>, the snapshot
  \<open>/mnt/backup/root/7\<close> resolves to \<open>/\<close>; the script still calls \<open>delete_snapshot\<close>
  on it: the volume removal is run on \<open>/mnt/backup/root/7/subvolume\<close>, then
  \<open>rmtree\<close> is called on the link and raises. The guard logs nothing.
\<close>

theorem link_to_root_is_attempted:
  "Log WARNING (Skipping_root p) \<notin> set (events (snd (main e a)))
   \<and> resolve_link_7 (child_path backup_dir ''7'') = PosixPath Root []
   \<and> \<not> rmtree env_link_to_root (child_path backup_dir ''7'')
   \<and> attempted (snd (main env_link_to_root (cleanup_args 0))) = [(7, child_path backup_dir ''7'')]
   \<and> events (snd (main env_link_to_root (cleanup_args 0)))
       = [Log WARNING Max_keep_zero,
          Log INFO (Latest_backup_number (Some 5)),
          Log DEBUG (List_of_snapshots [7]),
          Run_btrfs_subvolume_delete (child_path (child_path backup_dir ''7'') ''subvolume''),
          Run_rmtree (child_path backup_dir ''7''),
          Log WARNING (Failed_to_delete_outer_directory (child_path backup_dir ''7'')),
          Log DEBUG Exception_detail,
          Log INFO (Successful_deletes 0),
          Log INFO (Delete_attempts 0),
          Log INFO (Total_discovered 1)]"
  using main_root_guard_dead[of p e a]
  by (simp add: main_def get_snapshot_root_path_def get_snapshots_def get_latest_snapshot_num_def
        run_defs env_defs path_defs text_defs resolve_link_7_def)

end
